theory Spec2Isabelle
  imports Main
begin

section \<open>The Minesweeper solver of \<^verbatim>\<open>solver.js\<close>\<close>

text \<open>
  The two functions of \<^verbatim>\<open>solver.js\<close>, \<^verbatim>\<open>getNeighbors\<close> and
  \<^verbatim>\<open>findMoves\<close>, are embedded as HOL functions. Every place where the JavaScript
  can throw (reading a property of \<^verbatim>\<open>undefined\<close>) is a branch that returns
  \<open>Inl TypeError\<close>; a \<^verbatim>\<open>Set\<close> of strings is the list of its members in insertion
  order, which is the order \<^verbatim>\<open>Array.from\<close> reads them in.
\<close>

subsection \<open>Values and the board\<close>

datatype error = TypeError

text \<open>
  A JavaScript value in a place where the code expects a number: an integer, \<^verbatim>\<open>NaN\<close>
  or \<^verbatim>\<open>undefined\<close>. Row and column indices and clue values are integers; doubles
  represent every integer below \<open>2^53\<close> exactly and an array is shorter than \<open>2^32\<close>, so
  unbounded integers agree with the doubles on every comparison against a length that
  the code makes.
\<close>

datatype jsval = Num int | NaN | Undefined

text \<open>An object \<^verbatim>\<open>{ row, col }\<close>.\<close>

record 'a cell =
  row :: 'a
  col :: 'a

type_synonym pos = "int cell"

text \<open>
  \<^verbatim>\<open>state: { kind: string, value?: number }\<close>; an absent \<^verbatim>\<open>value\<close> reads as
  \<^verbatim>\<open>undefined\<close>.
\<close>

record state =
  kind :: string
  "value" :: jsval

text \<open>A tile \<^verbatim>\<open>{ row, col, state }\<close>; the board is \<^verbatim>\<open>board[row][col]\<close>.\<close>

record tile = "int cell" +
  state :: state

type_synonym board = "tile list list"

subsection \<open>getNeighbors\<close>

definition directions :: "(int \<times> int) list" where
  "directions =
     [(-1, -1), (-1, 0), (-1, 1),
      (0, -1),           (0, 1),
      (1, -1),  (1, 0),  (1, 1)]"

text \<open>
  \<^verbatim>\<open>board[0].length\<close>: on a board with no rows \<^verbatim>\<open>board[0]\<close> is \<^verbatim>\<open>undefined\<close> and
  reading its length throws.
\<close>

definition row0_length :: "board \<Rightarrow> error + int" where
  "row0_length board = (case board of [] \<Rightarrow> Inl TypeError | r0 # _ \<Rightarrow> Inr (int (length r0)))"

text \<open>
  The bounds check
  \<^verbatim>\<open>newRow >= 0 && newRow < board.length && newCol >= 0 && newCol < board[0].length\<close>,
  evaluated left to right: \<^verbatim>\<open>&&\<close> stops at the first false operand, so row 0 is read
  only when the three tests before it have passed.
\<close>

definition inBounds :: "board \<Rightarrow> int \<Rightarrow> int \<Rightarrow> error + bool" where
  "inBounds board newRow newCol =
     (if \<not> newRow \<ge> 0 then Inr False
      else if \<not> newRow < int (length board) then Inr False
      else if \<not> newCol \<ge> 0 then Inr False
      else (case row0_length board of
              Inl e \<Rightarrow> Inl e
            | Inr w \<Rightarrow> Inr (newCol < w)))"

text \<open>
  The loop over \<^verbatim>\<open>directions\<close>; \<open>neighbors\<close> is the array pushed to. The parameters
  \<^verbatim>\<open>row\<close> and \<^verbatim>\<open>col\<close> are written \<open>r\<close> and \<open>c\<close>, the names \<open>row\<close> and \<open>col\<close> being
  the fields of a cell.
\<close>

fun getNeighbors_loop ::
  "board \<Rightarrow> int \<Rightarrow> int \<Rightarrow> (int \<times> int) list \<Rightarrow> pos list \<Rightarrow> error + pos list" where
  "getNeighbors_loop board r c [] neighbors = Inr neighbors"
| "getNeighbors_loop board r c ((dr, dc) # ds) neighbors =
     (let newRow = r + dr; newCol = c + dc in
      case inBounds board newRow newCol of
        Inl e \<Rightarrow> Inl e
      | Inr ok \<Rightarrow>
          getNeighbors_loop board r c ds
            (if ok then neighbors @ [\<lparr>row = newRow, col = newCol\<rparr>] else neighbors))"

definition getNeighbors :: "board \<Rightarrow> int \<Rightarrow> int \<Rightarrow> error + pos list" where
  "getNeighbors board r c = getNeighbors_loop board r c directions []"

subsection \<open>Cell keys\<close>

text \<open>
  The decimal digits of a natural number, and \<^verbatim>\<open>String(i)\<close> for an integer \<open>i\<close>:
  what a template literal writes for an integer below \<open>10^21\<close>.
\<close>

definition digitChar :: "nat \<Rightarrow> char" where
  "digitChar d = ''0123456789'' ! d"

fun digitsOf :: "nat \<Rightarrow> string" where
  "digitsOf n =
     (if n < 10 then [digitChar n] else digitsOf (n div 10) @ [digitChar (n mod 10)])"

declare digitsOf.simps [simp del]

definition toString :: "int \<Rightarrow> string" where
  "toString i = (if i < 0 then CHR ''-'' # digitsOf (nat (- i)) else digitsOf (nat i))"

text \<open>\<^verbatim>\<open>cellKey = (row, col) => `${row}_${col}`\<close>\<close>

definition cellKey :: "int \<Rightarrow> int \<Rightarrow> string" where
  "cellKey r c = toString r @ ''_'' @ toString c"

text \<open>\<^verbatim>\<open>key.split('_')\<close>: the pieces between the separators; never an empty array.\<close>

fun split :: "char \<Rightarrow> string \<Rightarrow> string list" where
  "split sep [] = [[]]"
| "split sep (c # cs) =
     (if c = sep then [] # split sep cs
      else (case split sep cs of
              p # ps \<Rightarrow> (c # p) # ps
            | [] \<Rightarrow> [[c]]))"

definition isDigit :: "char \<Rightarrow> bool" where
  "isDigit c = (c \<in> set ''0123456789'')"

definition digitVal :: "char \<Rightarrow> nat" where
  "digitVal c = of_char c - 48"

definition parseDigits :: "string \<Rightarrow> nat" where
  "parseDigits s = foldl (\<lambda>acc c. acc * 10 + digitVal c) 0 s"

text \<open>
  \<^verbatim>\<open>Number(s)\<close> on the strings that \<^verbatim>\<open>split\<close> can hand it here: the empty string
  is 0, an optionally signed run of decimal digits is its value, and any other string
  is taken as \<^verbatim>\<open>NaN\<close>. (JavaScript also reads surrounding white space, fractions,
  exponents, other radixes and \<^verbatim>\<open>Infinity\<close>; no key built by \<open>cellKey\<close> from two
  integers has such a piece.)
\<close>

definition Number :: "string \<Rightarrow> jsval" where
  "Number s =
     (if s = [] then Num 0
      else if list_all isDigit s then Num (int (parseDigits s))
      else (case s of
              c # ds \<Rightarrow>
                if c = CHR ''-'' \<and> ds \<noteq> [] \<and> list_all isDigit ds then Num (- int (parseDigits ds))
                else if c = CHR ''+'' \<and> ds \<noteq> [] \<and> list_all isDigit ds then Num (int (parseDigits ds))
                else NaN
            | [] \<Rightarrow> NaN))"

text \<open>
  \<^verbatim>\<open>const [row, col] = key.split('_').map(Number); return { row, col };\<close>
  A destructured element that the array does not have is \<^verbatim>\<open>undefined\<close>.
\<close>

definition elementAt :: "jsval list \<Rightarrow> nat \<Rightarrow> jsval" where
  "elementAt xs i = (if i < length xs then xs ! i else Undefined)"

definition keyToCell :: "string \<Rightarrow> jsval cell" where
  "keyToCell key =
     (let parts = map Number (split CHR ''_'' key)
      in \<lparr>row = elementAt parts 0, col = elementAt parts 1\<rparr>)"

subsection \<open>Sets of keys\<close>

text \<open>
  A \<^verbatim>\<open>Set\<close> of strings as the list of its members in insertion order:
  \<^verbatim>\<open>add\<close> appends a key that is not yet a member and leaves the set alone otherwise.
\<close>

definition setHas :: "string list \<Rightarrow> string \<Rightarrow> bool" where
  "setHas s k = (k \<in> set s)"

definition setAdd :: "string list \<Rightarrow> string \<Rightarrow> string list" where
  "setAdd s k = (if setHas s k then s else s @ [k])"

subsection \<open>findMoves\<close>

text \<open>
  \<^verbatim>\<open>board[n.row][n.col]\<close> where the code goes on to read \<^verbatim>\<open>.state\<close>: a row or a tile
  that is not there is \<^verbatim>\<open>undefined\<close>, and reading a property of it throws.
\<close>

definition tileAt :: "board \<Rightarrow> pos \<Rightarrow> error + tile" where
  "tileAt board n =
     (if 0 \<le> row n \<and> row n < int (length board) then
        (let r = board ! nat (row n) in
         if 0 \<le> col n \<and> col n < int (length r) then Inr (r ! nat (col n))
         else Inl TypeError)
      else Inl TypeError)"

text \<open>\<^verbatim>\<open>Array.prototype.filter\<close> with a callback that may throw.\<close>

fun filterE :: "('a \<Rightarrow> error + bool) \<Rightarrow> 'a list \<Rightarrow> error + 'a list" where
  "filterE p [] = Inr []"
| "filterE p (x # xs) =
     (case p x of
        Inl e \<Rightarrow> Inl e
      | Inr b \<Rightarrow>
          (case filterE p xs of
             Inl e \<Rightarrow> Inl e
           | Inr ys \<Rightarrow> Inr (if b then x # ys else ys)))"

text \<open>A \<^verbatim>\<open>for\<close> loop over the indices \<open>xs\<close> whose body updates \<open>s\<close> or throws.\<close>

fun forE :: "('a \<Rightarrow> 's \<Rightarrow> error + 's) \<Rightarrow> 'a list \<Rightarrow> 's \<Rightarrow> error + 's" where
  "forE body [] s = Inr s"
| "forE body (x # xs) s =
     (case body x s of
        Inl e \<Rightarrow> Inl e
      | Inr s' \<Rightarrow> forE body xs s')"

text \<open>\<^verbatim>\<open>ns.forEach(n => { cells.add(cellKey(n.row, n.col)); })\<close>\<close>

definition addAll :: "string list \<Rightarrow> pos list \<Rightarrow> string list" where
  "addAll cells ns = foldl (\<lambda>s n. setAdd s (cellKey (row n) (col n))) cells ns"

text \<open>The callback of the first pass's filter.\<close>

definition isHidden :: "board \<Rightarrow> pos \<Rightarrow> error + bool" where
  "isHidden board n =
     (case tileAt board n of
        Inl e \<Rightarrow> Inl e
      | Inr neighborTile \<Rightarrow> Inr (kind (state neighborTile) = ''hidden''))"

text \<open>The body of the first pass at the tile \<open>board[r][c]\<close>, with \<open>c < board[r].length\<close>.\<close>

definition pass1_tile :: "board \<Rightarrow> nat \<Rightarrow> nat \<Rightarrow> string list \<Rightarrow> error + string list" where
  "pass1_tile board r c mineCells =
     (let tile = board ! r ! c in
      if kind (state tile) \<noteq> ''number'' then Inr mineCells
      else
        (let v = value (state tile) in
         case getNeighbors board (int r) (int c) of
           Inl e \<Rightarrow> Inl e
         | Inr neighbors \<Rightarrow>
             (case filterE (isHidden board) neighbors of
                Inl e \<Rightarrow> Inl e
              | Inr hiddenNeighbors \<Rightarrow>
                  if v = Num (int (length hiddenNeighbors))
                  then Inr (addAll mineCells hiddenNeighbors)
                  else Inr mineCells)))"

definition pass1 :: "board \<Rightarrow> error + string list" where
  "pass1 board =
     forE (\<lambda>r. forE (\<lambda>c. pass1_tile board r c) [0..<length (board ! r)])
       [0..<length board] []"

text \<open>The callback of the second pass's second filter.\<close>

definition isHiddenNotMine :: "board \<Rightarrow> string list \<Rightarrow> pos \<Rightarrow> error + bool" where
  "isHiddenNotMine board mineCells n =
     (case tileAt board n of
        Inl e \<Rightarrow> Inl e
      | Inr neighborTile \<Rightarrow>
          Inr (kind (state neighborTile) = ''hidden'' \<and>
               \<not> setHas mineCells (cellKey (row n) (col n))))"

definition identifiedMineCount :: "string list \<Rightarrow> pos list \<Rightarrow> nat" where
  "identifiedMineCount mineCells neighbors =
     length (filter (\<lambda>n. setHas mineCells (cellKey (row n) (col n))) neighbors)"

definition pass2_tile ::
  "board \<Rightarrow> string list \<Rightarrow> nat \<Rightarrow> nat \<Rightarrow> string list \<Rightarrow> error + string list" where
  "pass2_tile board mineCells r c safeCells =
     (let tile = board ! r ! c in
      if kind (state tile) \<noteq> ''number'' then Inr safeCells
      else
        (let v = value (state tile) in
         case getNeighbors board (int r) (int c) of
           Inl e \<Rightarrow> Inl e
         | Inr neighbors \<Rightarrow>
             if Num (int (identifiedMineCount mineCells neighbors)) = v then
               (case filterE (isHiddenNotMine board mineCells) neighbors of
                  Inl e \<Rightarrow> Inl e
                | Inr hiddenNeighbors \<Rightarrow> Inr (addAll safeCells hiddenNeighbors))
             else Inr safeCells))"

definition pass2 :: "board \<Rightarrow> string list \<Rightarrow> error + string list" where
  "pass2 board mineCells =
     forE (\<lambda>r. forE (\<lambda>c. pass2_tile board mineCells r c) [0..<length (board ! r)])
       [0..<length board] []"

text \<open>The returned object \<^verbatim>\<open>{ safeCells: safeArray, mineCells: mineArray }\<close>.\<close>

record moves =
  safeCells :: "jsval cell list"
  mineCells :: "jsval cell list"

definition findMoves :: "board \<Rightarrow> error + moves" where
  "findMoves board =
     (case pass1 board of
        Inl e \<Rightarrow> Inl e
      | Inr mineSet \<Rightarrow>
          (case pass2 board mineSet of
             Inl e \<Rightarrow> Inl e
           | Inr safeSet \<Rightarrow>
               Inr \<lparr>safeCells = map keyToCell safeSet, mineCells = map keyToCell mineSet\<rparr>))"

section \<open>Auxiliary notions for the statements\<close>

subsection \<open>Neighbours as a filtered list of candidates\<close>

text \<open>
  The eight candidate positions around \<open>(r, c)\<close> in the order of \<open>directions\<close>, and the
  bounds test as a predicate on a position. On a board with no rows the predicate is
  false whatever \<open>hd board\<close> is.
\<close>

definition withinBoard :: "board \<Rightarrow> pos \<Rightarrow> bool" where
  "withinBoard board p \<longleftrightarrow>
     0 \<le> row p \<and> row p < int (length board) \<and> 0 \<le> col p \<and>
     board \<noteq> [] \<and> col p < int (length (hd board))"

definition candidates :: "int \<Rightarrow> int \<Rightarrow> pos list" where
  "candidates r c = map (\<lambda>(dr, dc). \<lparr>row = r + dr, col = c + dc\<rparr>) directions"

definition nbrs :: "board \<Rightarrow> nat \<Rightarrow> nat \<Rightarrow> pos list" where
  "nbrs board r c = filter (withinBoard board) (candidates (int r) (int c))"

subsection \<open>Positions, their keys and the returned cells\<close>

text \<open>
  The key that the code builds for a position, and the object that the final conversion
  makes from the key of a position.
\<close>

definition keyOf :: "pos \<Rightarrow> string" where
  "keyOf n = cellKey (row n) (col n)"

definition outCell :: "pos \<Rightarrow> jsval cell" where
  "outCell p = \<lparr>row = Num (row p), col = Num (col p)\<rparr>"

text \<open>
  The tile at \<open>p\<close> exists and its kind is \<^verbatim>\<open>"hidden"\<close>; the tile at \<open>(r, c)\<close> exists and is
  a number tile showing \<open>v\<close>.
\<close>

definition hiddenAt :: "board \<Rightarrow> pos \<Rightarrow> bool" where
  "hiddenAt board p \<longleftrightarrow>
     0 \<le> row p \<and> row p < int (length board) \<and>
     0 \<le> col p \<and> col p < int (length (board ! nat (row p))) \<and>
     kind (state (board ! nat (row p) ! nat (col p))) = ''hidden''"

definition revealedAt :: "board \<Rightarrow> nat \<Rightarrow> nat \<Rightarrow> int \<Rightarrow> bool" where
  "revealedAt board r c v \<longleftrightarrow>
     r < length board \<and> c < length (board ! r) \<and>
     kind (state (board ! r ! c)) = ''number'' \<and> value (state (board ! r ! c)) = Num v"

text \<open>
  A board is rectangular when every row is as wide as row 0.
\<close>

definition rectangular :: "board \<Rightarrow> bool" where
  "rectangular board \<longleftrightarrow> (\<forall>r \<in> set board. length r = length (hd board))"

subsection \<open>What one tile contributes, and what a pass collects\<close>

text \<open>
  The positions that the first pass adds at the tile \<open>(r, c)\<close>, the positions that the
  second pass adds there given the key set \<open>m\<close> of the first pass, and their unions over
  the tiles that the two nested loops visit.
\<close>

definition minesAt :: "board \<Rightarrow> nat \<Rightarrow> nat \<Rightarrow> pos list" where
  "minesAt board r c =
     (let hs = filter (hiddenAt board) (nbrs board r c) in
      if kind (state (board ! r ! c)) = ''number'' \<and>
         value (state (board ! r ! c)) = Num (int (length hs))
      then hs else [])"

definition safeAt :: "board \<Rightarrow> string list \<Rightarrow> nat \<Rightarrow> nat \<Rightarrow> pos list" where
  "safeAt board m r c =
     (if kind (state (board ! r ! c)) = ''number'' \<and>
         Num (int (identifiedMineCount m (nbrs board r c))) = value (state (board ! r ! c))
      then filter (\<lambda>n. hiddenAt board n \<and> keyOf n \<notin> set m) (nbrs board r c) else [])"

definition minePositions :: "board \<Rightarrow> pos set" where
  "minePositions board =
     (\<Union>r \<in> set [0..<length board]. \<Union>c \<in> set [0..<length (board ! r)]. set (minesAt board r c))"

definition safePositions :: "board \<Rightarrow> string list \<Rightarrow> pos set" where
  "safePositions board m =
     (\<Union>r \<in> set [0..<length board]. \<Union>c \<in> set [0..<length (board ! r)]. set (safeAt board m r c))"

subsection \<open>The two deduction rules as the specification words them\<close>

text \<open>
  The neighbours of \<open>(r, c)\<close> as a set. A position is a certain mine when it is a hidden
  neighbour of some revealed tile whose value equals the number of its hidden neighbours.
  A position is certainly safe when it is hidden, is not a certain mine, and is a neighbour
  of some revealed tile whose value equals the number of its neighbours that are certain
  mines.
\<close>

definition neighborsOf :: "board \<Rightarrow> nat \<Rightarrow> nat \<Rightarrow> pos set" where
  "neighborsOf board r c =
     (case getNeighbors board (int r) (int c) of Inr ns \<Rightarrow> set ns | Inl e \<Rightarrow> {})"

definition spec_mines :: "board \<Rightarrow> pos set" where
  "spec_mines board =
     {p. \<exists>r c v. revealedAt board r c v \<and> p \<in> neighborsOf board r c \<and> hiddenAt board p \<and>
           v = int (card {q \<in> neighborsOf board r c. hiddenAt board q})}"

definition spec_safe :: "board \<Rightarrow> pos set" where
  "spec_safe board =
     {p. hiddenAt board p \<and> p \<notin> spec_mines board \<and>
         (\<exists>r c v. revealedAt board r c v \<and> p \<in> neighborsOf board r c \<and>
            v = int (card (neighborsOf board r c \<inter> spec_mines board)))}"

subsection \<open>Example boards\<close>

text \<open>
  Tiles as \<^verbatim>\<open>runSolverOnExampleBoards\<close> writes them, the 2 by 3 board of its second example,
  a 1 by 4 board on which both rules fire, and the same board with other \<^verbatim>\<open>row\<close> and
  \<^verbatim>\<open>col\<close> fields in its tiles.
\<close>

definition hiddenTile :: "int \<Rightarrow> int \<Rightarrow> tile" where
  "hiddenTile r c = \<lparr>row = r, col = c, state = \<lparr>kind = ''hidden'', value = Undefined\<rparr>\<rparr>"

definition numberTile :: "int \<Rightarrow> int \<Rightarrow> int \<Rightarrow> tile" where
  "numberTile r c v = \<lparr>row = r, col = c, state = \<lparr>kind = ''number'', value = Num v\<rparr>\<rparr>"

definition scenarioC :: board where
  "scenarioC =
     [[numberTile 0 0 2, hiddenTile 0 1, hiddenTile 0 2],
      [numberTile 1 0 1, hiddenTile 1 1, hiddenTile 1 2]]"

definition scenarioD :: board where
  "scenarioD = [[numberTile 0 0 1, hiddenTile 0 1, numberTile 0 2 1, hiddenTile 0 3]]"

definition scenarioD_moves :: moves where
  "scenarioD_moves =
     \<lparr>safeCells = [\<lparr>row = Num 0, col = Num 3\<rparr>], mineCells = [\<lparr>row = Num 0, col = Num 1\<rparr>]\<rparr>"

definition scenarioD_relabelled :: board where
  "scenarioD_relabelled = [[numberTile 5 5 1, hiddenTile 0 0, numberTile 9 2 1, hiddenTile 3 0]]"

text \<open>
  What \<open>findMoves\<close> reads of a board: the states of its tiles, row by row.
\<close>

definition tileStates :: "board \<Rightarrow> state list list" where
  "tileStates board = map (map state) board"

section \<open>getNeighbors returns the candidates that are within the board\<close>

lemma inBounds_eq: "inBounds board a b = Inr (withinBoard board \<lparr>row = a, col = b\<rparr>)"
  by (cases board) (auto simp: inBounds_def row0_length_def withinBoard_def)

lemma getNeighbors_loop_eq:
  "getNeighbors_loop board r c ds acc =
     Inr (acc @ filter (withinBoard board) (map (\<lambda>(dr, dc). \<lparr>row = r + dr, col = c + dc\<rparr>) ds))"
proof (induction ds arbitrary: acc)
  case Nil
  show ?case by simp
next
  case (Cons d ds)
  obtain dr dc where d: "d = (dr, dc)" by (cases d)
  show ?case by (simp add: d inBounds_eq Cons.IH)
qed

lemma getNeighbors_eq: "getNeighbors board r c = Inr (filter (withinBoard board) (candidates r c))"
  by (simp add: getNeighbors_def candidates_def getNeighbors_loop_eq)

lemma candidates_unfold:
  "candidates r c =
     [\<lparr>row = r - 1, col = c - 1\<rparr>, \<lparr>row = r - 1, col = c\<rparr>, \<lparr>row = r - 1, col = c + 1\<rparr>,
      \<lparr>row = r, col = c - 1\<rparr>, \<lparr>row = r, col = c + 1\<rparr>,
      \<lparr>row = r + 1, col = c - 1\<rparr>, \<lparr>row = r + 1, col = c\<rparr>, \<lparr>row = r + 1, col = c + 1\<rparr>]"
  by (simp add: candidates_def directions_def)

lemma distinct_candidates: "distinct (candidates r c)"
  by (simp add: candidates_unfold)

lemma candidates_not_self: "p \<in> set (candidates r c) \<Longrightarrow> p \<noteq> \<lparr>row = r, col = c\<rparr>"
  by (auto simp: candidates_unfold)

lemma length_candidates: "length (candidates r c) = 8"
  by (simp add: candidates_unfold)

section \<open>A key decodes to the cell it was made from\<close>

lemma digit_cases: "d < 10 \<Longrightarrow> d = 0 \<or> d = 1 \<or> d = 2 \<or> d = 3 \<or> d = 4 \<or> d = 5 \<or> d = 6 \<or> d = 7 \<or> d = 8 \<or> d = (9::nat)"
  by arith

lemma digitChar_props:
  assumes "d < 10"
  shows "isDigit (digitChar d)" and "digitVal (digitChar d) = d"
  using digit_cases [OF assms]
  by (auto simp: isDigit_def digitVal_def digitChar_def)

lemma isDigit_neq: "isDigit ch \<Longrightarrow> ch \<noteq> CHR ''_'' \<and> ch \<noteq> CHR ''-''"
  by (auto simp: isDigit_def)

lemma parseDigits_snoc: "parseDigits (s @ [ch]) = parseDigits s * 10 + digitVal ch"
  by (simp add: parseDigits_def)

lemma digitsOf_props: "list_all isDigit (digitsOf n) \<and> digitsOf n \<noteq> [] \<and> parseDigits (digitsOf n) = n"
proof (induction n rule: digitsOf.induct)
  case (1 n)
  show ?case
  proof (cases "n < 10")
    case True
    then show ?thesis
      by (simp add: digitsOf.simps [of n] digitChar_props parseDigits_def)
  next
    case False
    have "n mod 10 < 10" by simp
    with False "1.IH" show ?thesis
      by (simp add: digitsOf.simps [of n] digitChar_props parseDigits_snoc)
  qed
qed

lemma Number_toString: "Number (toString i) = Num i"
proof (cases "i < 0")
  case True
  have "\<not> isDigit CHR ''-''" by (simp add: isDigit_def)
  with True show ?thesis
    by (simp add: Number_def toString_def digitsOf_props)
next
  case False
  then show ?thesis
    by (simp add: Number_def toString_def digitsOf_props)
qed

lemma toString_no_sep: "CHR ''_'' \<notin> set (toString i)"
proof -
  have "\<forall>ch \<in> set (digitsOf n). ch \<noteq> CHR ''_''" for n
    using digitsOf_props [of n] isDigit_neq by (auto simp: list_all_iff)
  then show ?thesis by (auto simp: toString_def)
qed

lemma split_no_sep: "sep \<notin> set a \<Longrightarrow> split sep a = [a]"
  by (induction a) auto

lemma split_at_sep: "sep \<notin> set a \<Longrightarrow> split sep (a @ sep # b) = a # split sep b"
  by (induction a) auto

lemma keyToCell_cellKey: "keyToCell (cellKey r c) = \<lparr>row = Num r, col = Num c\<rparr>"
  by (simp add: keyToCell_def cellKey_def split_at_sep split_no_sep toString_no_sep
      Number_toString elementAt_def)

lemma cellKey_inj: "cellKey r c = cellKey r' c' \<Longrightarrow> r = r' \<and> c = c'"
proof -
  assume "cellKey r c = cellKey r' c'"
  then have "keyToCell (cellKey r c) = keyToCell (cellKey r' c')" by simp
  then show ?thesis by (simp add: keyToCell_cellKey)
qed

lemma keyToCell_keyOf: "keyToCell (keyOf n) = outCell n"
  by (simp add: keyOf_def outCell_def keyToCell_cellKey)

lemma outCell_inj: "outCell p = outCell q \<Longrightarrow> p = q"
  by (cases p, cases q) (simp add: outCell_def)

lemma keyOf_inj: "keyOf p = keyOf q \<Longrightarrow> p = q"
  using keyToCell_keyOf outCell_inj by metis

lemma keyOf_image_iff: "keyOf n \<in> keyOf ` M \<longleftrightarrow> n \<in> M"
  using keyOf_inj by blast

section \<open>Key sets, fallible filters and loops\<close>

lemma set_setAdd: "set (setAdd s k) = insert k (set s)"
  by (auto simp: setAdd_def setHas_def)

lemma distinct_setAdd: "distinct s \<Longrightarrow> distinct (setAdd s k)"
  by (simp add: setAdd_def setHas_def)

lemma addAll_props: "set (addAll s ns) = set s \<union> keyOf ` set ns \<and> (distinct s \<longrightarrow> distinct (addAll s ns))"
proof (induction ns arbitrary: s)
  case Nil
  show ?case by (simp add: addAll_def)
next
  case (Cons n ns)
  have step: "addAll s (n # ns) = addAll (setAdd s (cellKey (row n) (col n))) ns"
    by (simp add: addAll_def)
  show ?case
    using Cons.IH [of "setAdd s (cellKey (row n) (col n))"]
    by (auto simp: step set_setAdd distinct_setAdd keyOf_def)
qed

lemma set_addAll: "set (addAll s ns) = set s \<union> keyOf ` set ns"
  by (simp add: addAll_props)

lemma distinct_addAll: "distinct s \<Longrightarrow> distinct (addAll s ns)"
  by (simp add: addAll_props)

lemma filterE_Inr: "filterE p xs = Inr ys \<Longrightarrow> ys = filter (\<lambda>x. p x = Inr True) xs"
  by (induction xs arbitrary: ys) (auto split: sum.splits if_splits)

lemma filterE_total: "(\<And>x. x \<in> set xs \<Longrightarrow> \<exists>b. p x = Inr b) \<Longrightarrow> \<exists>ys. filterE p xs = Inr ys"
proof (induction xs)
  case Nil
  show ?case by simp
next
  case (Cons x xs)
  from Cons.prems obtain b where b: "p x = Inr b" by auto
  from Cons obtain ys where "filterE p xs = Inr ys" by auto
  with b show ?case by simp
qed

lemma forE_collect:
  assumes "forE body xs s = Inr s'"
    and "\<And>x t t'. x \<in> set xs \<Longrightarrow> body x t = Inr t' \<Longrightarrow> f t' = f t \<union> C x"
  shows "f s' = f s \<union> (\<Union>x \<in> set xs. C x)"
  using assms
proof (induction xs arbitrary: s)
  case Nil
  then show ?case by simp
next
  case (Cons x xs)
  from Cons.prems(1) obtain t where t: "body x s = Inr t" and rest: "forE body xs t = Inr s'"
    by (auto split: sum.splits)
  have "f t = f s \<union> C x" using Cons.prems(2) t by simp
  moreover have "f s' = f t \<union> (\<Union>x \<in> set xs. C x)"
    using Cons.IH [OF rest] Cons.prems(2) by simp
  ultimately show ?case by auto
qed

lemma forE_invariant:
  assumes "forE body xs s = Inr s'" and "P s"
    and "\<And>x t t'. x \<in> set xs \<Longrightarrow> P t \<Longrightarrow> body x t = Inr t' \<Longrightarrow> P t'"
  shows "P s'"
  using assms
proof (induction xs arbitrary: s)
  case Nil
  then show ?case by simp
next
  case (Cons x xs)
  from Cons.prems(1) obtain t where t: "body x s = Inr t" and rest: "forE body xs t = Inr s'"
    by (auto split: sum.splits)
  have "P t" using Cons.prems(3) [of x s t] Cons.prems(2) t by simp
  show ?case
  proof (rule Cons.IH [OF rest \<open>P t\<close>])
    fix y u u'
    assume "y \<in> set xs" "P u" "body y u = Inr u'"
    then show "P u'" using Cons.prems(3) [of y u u'] by simp
  qed
qed

lemma forE_total:
  assumes "\<And>x t. x \<in> set xs \<Longrightarrow> \<exists>t'. body x t = Inr t'"
  shows "\<exists>s'. forE body xs s = Inr s'"
  using assms
proof (induction xs arbitrary: s)
  case Nil
  show ?case by simp
next
  case (Cons x xs)
  from Cons.prems obtain t where t: "body x s = Inr t" by (meson list.set_intros(1))
  from Cons.IH [of t] Cons.prems obtain s' where "forE body xs t = Inr s'" by auto
  with t show ?case by simp
qed

section \<open>One tile, then a whole pass\<close>

lemma getNeighbors_nbrs: "getNeighbors board (int r) (int c) = Inr (nbrs board r c)"
  by (simp add: getNeighbors_eq nbrs_def)

lemma distinct_nbrs: "distinct (nbrs board r c)"
  by (simp add: nbrs_def distinct_candidates)

lemma isHidden_True_iff: "isHidden board n = Inr True \<longleftrightarrow> hiddenAt board n"
  by (auto simp: isHidden_def tileAt_def hiddenAt_def Let_def split: if_splits)

lemma isHiddenNotMine_True_iff:
  "isHiddenNotMine board m n = Inr True \<longleftrightarrow> hiddenAt board n \<and> keyOf n \<notin> set m"
  by (auto simp: isHiddenNotMine_def tileAt_def hiddenAt_def keyOf_def setHas_def Let_def
      split: if_splits)

lemma addAll_Nil: "addAll s [] = s"
  by (simp add: addAll_def)

lemma pass1_tile_Inr:
  assumes "pass1_tile board r c m = Inr m'"
  shows "m' = addAll m (minesAt board r c)"
proof (cases "kind (state (board ! r ! c)) = ''number''")
  case False
  with assms show ?thesis by (simp add: pass1_tile_def minesAt_def Let_def addAll_Nil)
next
  case True
  from assms True obtain hs where hs: "filterE (isHidden board) (nbrs board r c) = Inr hs"
    by (auto simp: pass1_tile_def Let_def getNeighbors_nbrs split: sum.splits)
  have "hs = filter (hiddenAt board) (nbrs board r c)"
    using filterE_Inr [OF hs] by (simp add: isHidden_True_iff)
  with assms True hs show ?thesis
    by (auto simp: pass1_tile_def minesAt_def Let_def getNeighbors_nbrs addAll_Nil
        split: if_splits)
qed

lemma pass2_tile_Inr:
  assumes "pass2_tile board m r c s = Inr s'"
  shows "s' = addAll s (safeAt board m r c)"
proof (cases "kind (state (board ! r ! c)) = ''number'' \<and>
    Num (int (identifiedMineCount m (nbrs board r c))) = value (state (board ! r ! c))")
  case False
  with assms show ?thesis
    by (auto simp: pass2_tile_def safeAt_def Let_def getNeighbors_nbrs addAll_Nil
        split: if_splits)
next
  case True
  from assms True obtain hs where hs: "filterE (isHiddenNotMine board m) (nbrs board r c) = Inr hs"
    by (auto simp: pass2_tile_def Let_def getNeighbors_nbrs split: sum.splits)
  have "hs = filter (\<lambda>n. hiddenAt board n \<and> keyOf n \<notin> set m) (nbrs board r c)"
    using filterE_Inr [OF hs] by (simp add: isHiddenNotMine_True_iff)
  with assms True hs show ?thesis
    by (simp add: pass2_tile_def safeAt_def Let_def getNeighbors_nbrs)
qed

lemma pass1_set:
  assumes "pass1 board = Inr m"
  shows "set m = keyOf ` minePositions board"
proof -
  have inner: "set t' = set t \<union> (\<Union>c \<in> set cs. keyOf ` set (minesAt board r c))"
    if "forE (\<lambda>c. pass1_tile board r c) cs t = Inr t'" for r cs t t'
    using that
  proof (rule forE_collect)
    fix c u u'
    assume a: "pass1_tile board r c u = Inr u'"
    show "set u' = set u \<union> keyOf ` set (minesAt board r c)"
      unfolding pass1_tile_Inr [OF a] by (rule set_addAll)
  qed
  have "set m = set [] \<union>
      (\<Union>r \<in> set [0..<length board]. \<Union>c \<in> set [0..<length (board ! r)]. keyOf ` set (minesAt board r c))"
    using assms unfolding pass1_def
  proof (rule forE_collect)
    fix r t t'
    assume "forE (pass1_tile board r) [0..<length (board ! r)] t = Inr t'"
    then show "set t' = set t \<union> (\<Union>c \<in> set [0..<length (board ! r)]. keyOf ` set (minesAt board r c))"
      by (rule inner)
  qed
  then show ?thesis unfolding minePositions_def by (simp add: image_UN)
qed

lemma pass1_distinct:
  assumes "pass1 board = Inr m"
  shows "distinct m"
proof -
  have inner: "distinct t'"
    if "forE (\<lambda>c. pass1_tile board r c) cs t = Inr t'" and "distinct t" for r cs t t'
    using that
  proof (rule forE_invariant)
    fix c u u'
    assume d: "distinct u" and a: "pass1_tile board r c u = Inr u'"
    show "distinct u'"
      unfolding pass1_tile_Inr [OF a] using d by (rule distinct_addAll)
  qed
  have "distinct ([] :: string list)" by simp
  with assms [unfolded pass1_def] show ?thesis
  proof (rule forE_invariant)
    fix r t t'
    assume "distinct t" "forE (pass1_tile board r) [0..<length (board ! r)] t = Inr t'"
    then show "distinct t'" using inner by blast
  qed
qed

lemma pass2_set:
  assumes "pass2 board m = Inr s"
  shows "set s = keyOf ` safePositions board m"
proof -
  have inner: "set t' = set t \<union> (\<Union>c \<in> set cs. keyOf ` set (safeAt board m r c))"
    if "forE (\<lambda>c. pass2_tile board m r c) cs t = Inr t'" for r cs t t'
    using that
  proof (rule forE_collect)
    fix c u u'
    assume a: "pass2_tile board m r c u = Inr u'"
    show "set u' = set u \<union> keyOf ` set (safeAt board m r c)"
      unfolding pass2_tile_Inr [OF a] by (rule set_addAll)
  qed
  have "set s = set [] \<union>
      (\<Union>r \<in> set [0..<length board]. \<Union>c \<in> set [0..<length (board ! r)]. keyOf ` set (safeAt board m r c))"
    using assms unfolding pass2_def
  proof (rule forE_collect)
    fix r t t'
    assume "forE (pass2_tile board m r) [0..<length (board ! r)] t = Inr t'"
    then show "set t' = set t \<union> (\<Union>c \<in> set [0..<length (board ! r)]. keyOf ` set (safeAt board m r c))"
      by (rule inner)
  qed
  then show ?thesis unfolding safePositions_def by (simp add: image_UN)
qed

lemma pass2_distinct:
  assumes "pass2 board m = Inr s"
  shows "distinct s"
proof -
  have inner: "distinct t'"
    if "forE (\<lambda>c. pass2_tile board m r c) cs t = Inr t'" and "distinct t" for r cs t t'
    using that
  proof (rule forE_invariant)
    fix c u u'
    assume d: "distinct u" and a: "pass2_tile board m r c u = Inr u'"
    show "distinct u'"
      unfolding pass2_tile_Inr [OF a] using d by (rule distinct_addAll)
  qed
  have "distinct ([] :: string list)" by simp
  with assms [unfolded pass2_def] show ?thesis
  proof (rule forE_invariant)
    fix r t t'
    assume "distinct t" "forE (pass2_tile board m r) [0..<length (board ! r)] t = Inr t'"
    then show "distinct t'" using inner by blast
  qed
qed

section \<open>On a rectangular board no access fails\<close>

lemma tileAt_total:
  assumes "rectangular board" and "withinBoard board n"
  shows "\<exists>t. tileAt board n = Inr t"
proof -
  from assms(2) have r: "nat (row n) < length board" and c: "col n < int (length (hd board))"
    and nn: "0 \<le> row n" "0 \<le> col n"
    by (auto simp: withinBoard_def)
  from r have "board ! nat (row n) \<in> set board" by simp
  with assms(1) have "length (board ! nat (row n)) = length (hd board)"
    by (simp add: rectangular_def)
  with r c nn show ?thesis by (simp add: tileAt_def Let_def)
qed

lemma withinBoard_nbrs: "n \<in> set (nbrs board r c) \<Longrightarrow> withinBoard board n"
  by (simp add: nbrs_def)

lemma pass1_tile_total:
  assumes "rectangular board"
  shows "\<exists>m'. pass1_tile board r c m = Inr m'"
proof -
  have "\<exists>b. isHidden board n = Inr b" if "n \<in> set (nbrs board r c)" for n
    using tileAt_total [OF assms withinBoard_nbrs [OF that]] by (auto simp: isHidden_def)
  then obtain hs where "filterE (isHidden board) (nbrs board r c) = Inr hs"
    using filterE_total [of "nbrs board r c" "isHidden board"] by blast
  then show ?thesis by (simp add: pass1_tile_def Let_def getNeighbors_nbrs)
qed

lemma pass2_tile_total:
  assumes "rectangular board"
  shows "\<exists>s'. pass2_tile board m r c s = Inr s'"
proof -
  have "\<exists>b. isHiddenNotMine board m n = Inr b" if "n \<in> set (nbrs board r c)" for n
    using tileAt_total [OF assms withinBoard_nbrs [OF that]] by (auto simp: isHiddenNotMine_def)
  then obtain hs where "filterE (isHiddenNotMine board m) (nbrs board r c) = Inr hs"
    using filterE_total [of "nbrs board r c" "isHiddenNotMine board m"] by blast
  then show ?thesis by (simp add: pass2_tile_def Let_def getNeighbors_nbrs)
qed

lemma pass1_total: "rectangular board \<Longrightarrow> \<exists>m. pass1 board = Inr m"
  unfolding pass1_def by (intro forE_total pass1_tile_total)

lemma pass2_total: "rectangular board \<Longrightarrow> \<exists>s. pass2 board m = Inr s"
  unfolding pass2_def by (intro forE_total pass2_tile_total)

section \<open>The collected positions are the ones the rules describe\<close>

lemma neighborsOf_eq: "neighborsOf board r c = set (nbrs board r c)"
  by (simp add: neighborsOf_def getNeighbors_nbrs)

lemma length_filter_card: "distinct xs \<Longrightarrow> length (filter P xs) = card {q \<in> set xs. P q}"
  using distinct_card [of "filter P xs"] by simp

lemma mem_minesAt:
  "p \<in> set (minesAt board r c) \<longleftrightarrow>
     kind (state (board ! r ! c)) = ''number'' \<and>
     value (state (board ! r ! c)) = Num (int (card {q \<in> set (nbrs board r c). hiddenAt board q})) \<and>
     p \<in> set (nbrs board r c) \<and> hiddenAt board p"
  by (auto simp: minesAt_def Let_def length_filter_card [OF distinct_nbrs])

lemma mem_minePositions:
  "p \<in> minePositions board \<longleftrightarrow>
     (\<exists>r c. r < length board \<and> c < length (board ! r) \<and> p \<in> set (minesAt board r c))"
  unfolding minePositions_def by (simp add: Bex_def)

lemma minePositions_eq: "minePositions board = spec_mines board"
proof (rule set_eqI)
  fix p
  show "p \<in> minePositions board \<longleftrightarrow> p \<in> spec_mines board"
    unfolding mem_minePositions mem_minesAt spec_mines_def revealedAt_def neighborsOf_eq
    by blast
qed

lemma identifiedMineCount_card:
  assumes "set m = keyOf ` M"
  shows "identifiedMineCount m (nbrs board r c) = card (set (nbrs board r c) \<inter> M)"
proof -
  have "{q \<in> set (nbrs board r c). keyOf q \<in> set m} = set (nbrs board r c) \<inter> M"
    by (auto simp: assms keyOf_image_iff)
  then show ?thesis
    by (simp add: identifiedMineCount_def setHas_def keyOf_def [symmetric]
        length_filter_card [OF distinct_nbrs])
qed

lemma mem_safePositions:
  "p \<in> safePositions board m \<longleftrightarrow>
     (\<exists>r c. r < length board \<and> c < length (board ! r) \<and> p \<in> set (safeAt board m r c))"
  unfolding safePositions_def by (simp add: Bex_def)

lemma mem_safeAt:
  assumes "set m = keyOf ` M"
  shows "p \<in> set (safeAt board m r c) \<longleftrightarrow>
     kind (state (board ! r ! c)) = ''number'' \<and>
     value (state (board ! r ! c)) = Num (int (card (set (nbrs board r c) \<inter> M))) \<and>
     p \<in> set (nbrs board r c) \<and> hiddenAt board p \<and> p \<notin> M"
  by (auto simp: safeAt_def identifiedMineCount_card [OF assms] assms keyOf_image_iff)

lemma safePositions_eq:
  assumes "set m = keyOf ` spec_mines board"
  shows "safePositions board m = spec_safe board"
proof (rule set_eqI)
  fix p
  show "p \<in> safePositions board m \<longleftrightarrow> p \<in> spec_safe board"
    unfolding mem_safePositions mem_safeAt [OF assms] spec_safe_def revealedAt_def neighborsOf_eq
    by blast
qed

lemma keys_decode: "set ks = keyOf ` P \<Longrightarrow> set (map keyToCell ks) = outCell ` P"
proof -
  assume a: "set ks = keyOf ` P"
  have "set (map keyToCell ks) = keyToCell ` keyOf ` P" by (simp add: a)
  also have "\<dots> = outCell ` P" by (simp add: image_image keyToCell_keyOf)
  finally show ?thesis .
qed

lemma keys_decode_distinct:
  assumes "set ks = keyOf ` P" and "distinct ks"
  shows "distinct (map keyToCell ks)"
proof -
  have "inj_on keyToCell (set ks)"
    unfolding assms(1) by (rule inj_onI) (auto simp: keyToCell_keyOf dest: outCell_inj)
  with assms(2) show ?thesis by (simp add: distinct_map)
qed

lemma findMoves_Inr:
  assumes "findMoves board = Inr res"
  obtains m s where "pass1 board = Inr m" and "pass2 board m = Inr s"
    and "res = \<lparr>safeCells = map keyToCell s, mineCells = map keyToCell m\<rparr>"
  using assms by (auto simp: findMoves_def split: sum.splits)

lemma safePositions_not_mine: "p \<in> safePositions board m \<Longrightarrow> keyOf p \<notin> set m"
  by (auto simp: safePositions_def safeAt_def split: if_splits)

lemma minePositions_hidden: "p \<in> minePositions board \<Longrightarrow> hiddenAt board p"
  by (auto simp: minePositions_def minesAt_def Let_def split: if_splits)

lemma safePositions_hidden: "p \<in> safePositions board m \<Longrightarrow> hiddenAt board p"
  by (auto simp: safePositions_def safeAt_def split: if_splits)

lemma minePositions_within: "p \<in> minePositions board \<Longrightarrow> withinBoard board p"
  by (auto simp: minePositions_def minesAt_def Let_def nbrs_def split: if_splits)

lemma safePositions_within: "p \<in> safePositions board m \<Longrightarrow> withinBoard board p"
  by (auto simp: safePositions_def safeAt_def nbrs_def split: if_splits)

lemma hiddenAt_outCell:
  assumes "hiddenAt board p" and "withinBoard board p"
  shows "\<exists>r c. outCell p = \<lparr>row = Num (int r), col = Num (int c)\<rparr> \<and> r < length board \<and>
           c < length (board ! r) \<and> c < length (hd board) \<and>
           kind (state (board ! r ! c)) = ''hidden''"
  using assms
  by (intro exI [of _ "nat (row p)"] exI [of _ "nat (col p)"])
    (auto simp: hiddenAt_def withinBoard_def outCell_def)

section \<open>The example boards, evaluated\<close>

lemma findMoves_scenarioD: "findMoves scenarioD = Inr scenarioD_moves"
  by code_simp

lemma rectangular_scenarioD: "rectangular scenarioD"
  by (simp add: rectangular_def scenarioD_def)

section \<open>A board with no rows\<close>

lemma inBounds_no_rows: "inBounds [] a b = Inr False"
  by (simp add: inBounds_def)

lemma getNeighbors_loop_no_rows: "getNeighbors_loop [] r c ds acc = Inr acc"
  by (induction ds arbitrary: acc) (auto simp: inBounds_no_rows)

section \<open>Only the states of the tiles are read\<close>

lemma forE_cong:
  "(\<And>x t. x \<in> set xs \<Longrightarrow> f x t = g x t) \<Longrightarrow> forE f xs s = forE g xs s"
  by (induction xs arbitrary: s) (auto split: sum.splits)

lemma same_states_length:
  assumes "tileStates b1 = tileStates b2"
  shows "length b1 = length b2"
  using assms unfolding tileStates_def by (rule map_eq_imp_length_eq)

lemma same_states_row:
  assumes "tileStates b1 = tileStates b2" and "r < length b1"
  shows "map state (b1 ! r) = map state (b2 ! r)"
proof -
  have "map (map state) b1 ! r = map (map state) b2 ! r"
    using assms(1) by (simp add: tileStates_def)
  then show ?thesis using assms(2) same_states_length [OF assms(1)] by simp
qed

lemma same_states_row_length:
  assumes "tileStates b1 = tileStates b2" and "r < length b1"
  shows "length (b1 ! r) = length (b2 ! r)"
  using same_states_row [OF assms] by (rule map_eq_imp_length_eq)

lemma same_states_tile:
  assumes "tileStates b1 = tileStates b2" and "r < length b1" and "c < length (b1 ! r)"
  shows "state (b1 ! r ! c) = state (b2 ! r ! c)"
proof -
  have "map state (b1 ! r) ! c = map state (b2 ! r) ! c"
    using same_states_row [OF assms(1,2)] by simp
  then show ?thesis using assms(3) same_states_row_length [OF assms(1,2)] by simp
qed

lemma same_states_tileAt:
  assumes "tileStates b1 = tileStates b2"
  shows "(case tileAt b1 n of Inl e \<Rightarrow> Inl e | Inr t \<Rightarrow> Inr (state t)) =
         (case tileAt b2 n of Inl e \<Rightarrow> Inl e | Inr t \<Rightarrow> Inr (state t))"
proof (cases "0 \<le> row n \<and> row n < int (length b1)")
  case False
  then show ?thesis by (auto simp: tileAt_def same_states_length [OF assms, symmetric])
next
  case True
  then have r: "nat (row n) < length b1" by (auto simp: nat_less_iff)
  note rl = same_states_row_length [OF assms r]
  show ?thesis
  proof (cases "0 \<le> col n \<and> col n < int (length (b1 ! nat (row n)))")
    case False
    with True show ?thesis
      by (auto simp: tileAt_def Let_def same_states_length [OF assms, symmetric] rl [symmetric])
  next
    case c: True
    then have "nat (col n) < length (b1 ! nat (row n))" by (auto simp: nat_less_iff)
    from same_states_tile [OF assms r this] True c show ?thesis
      by (simp add: tileAt_def Let_def same_states_length [OF assms, symmetric] rl [symmetric])
  qed
qed

lemma same_states_isHidden:
  assumes "tileStates b1 = tileStates b2"
  shows "isHidden b1 = isHidden b2"
proof
  fix n
  show "isHidden b1 n = isHidden b2 n"
    using same_states_tileAt [OF assms, of n]
    by (auto simp: isHidden_def split: sum.splits)
qed

lemma same_states_isHiddenNotMine:
  assumes "tileStates b1 = tileStates b2"
  shows "isHiddenNotMine b1 m = isHiddenNotMine b2 m"
proof
  fix n
  show "isHiddenNotMine b1 m n = isHiddenNotMine b2 m n"
    using same_states_tileAt [OF assms, of n]
    by (auto simp: isHiddenNotMine_def split: sum.splits)
qed

lemma same_states_getNeighbors:
  assumes "tileStates b1 = tileStates b2"
  shows "getNeighbors b1 r c = getNeighbors b2 r c"
proof -
  have "length (hd b1) = length (hd b2)" if "b1 \<noteq> []"
    using same_states_row_length [OF assms, of 0] that same_states_length [OF assms]
    by (cases b1; cases b2) auto
  moreover have "b1 = [] \<longleftrightarrow> b2 = []"
    using same_states_length [OF assms] by auto
  ultimately have "withinBoard b1 = withinBoard b2"
    by (auto simp: withinBoard_def fun_eq_iff same_states_length [OF assms])
  then show ?thesis by (simp add: getNeighbors_eq)
qed

lemma same_states_pass1_tile:
  assumes "tileStates b1 = tileStates b2" and "r < length b1" and "c < length (b1 ! r)"
  shows "pass1_tile b1 r c m = pass1_tile b2 r c m"
  by (simp add: pass1_tile_def same_states_tile [OF assms] same_states_isHidden [OF assms(1)]
      same_states_getNeighbors [OF assms(1)] cong: sum.case_cong)

lemma same_states_pass2_tile:
  assumes "tileStates b1 = tileStates b2" and "r < length b1" and "c < length (b1 ! r)"
  shows "pass2_tile b1 m r c s = pass2_tile b2 m r c s"
  by (simp add: pass2_tile_def same_states_tile [OF assms] same_states_isHiddenNotMine [OF assms(1)]
      same_states_getNeighbors [OF assms(1)] cong: sum.case_cong if_cong)

lemma same_states_pass1:
  assumes "tileStates b1 = tileStates b2"
  shows "pass1 b1 = pass1 b2"
proof -
  have "forE (\<lambda>c. pass1_tile b1 r c) [0..<length (b1 ! r)] t =
        forE (\<lambda>c. pass1_tile b2 r c) [0..<length (b2 ! r)] t" if "r < length b1" for r t
    unfolding same_states_row_length [OF assms that, symmetric]
    by (rule forE_cong) (simp add: same_states_pass1_tile [OF assms that])
  then show ?thesis
    unfolding pass1_def same_states_length [OF assms, symmetric]
    by (intro forE_cong) simp
qed

lemma same_states_pass2:
  assumes "tileStates b1 = tileStates b2"
  shows "pass2 b1 m = pass2 b2 m"
proof -
  have "forE (\<lambda>c. pass2_tile b1 m r c) [0..<length (b1 ! r)] t =
        forE (\<lambda>c. pass2_tile b2 m r c) [0..<length (b2 ! r)] t" if "r < length b1" for r t
    unfolding same_states_row_length [OF assms that, symmetric]
    by (rule forE_cong) (simp add: same_states_pass2_tile [OF assms that])
  then show ?thesis
    unfolding pass2_def same_states_length [OF assms, symmetric]
    by (intro forE_cong) simp
qed

section \<open>The properties that the specification states\<close>

text \<open>
  Claim C1 (first pass, mine deduction). On every rectangular board \<open>findMoves\<close> returns, and
  the cells of its mine array are exactly the positions \<open>p\<close> for which some tile \<open>(r, c)\<close> is
  revealed with a value \<open>v\<close>, \<open>p\<close> is one of the neighbours that \<open>getNeighbors\<close> gives for
  \<open>(r, c)\<close>, the tile at \<open>p\<close> is hidden, and \<open>v\<close> is the number of hidden neighbours of
  \<open>(r, c)\<close>.
\<close>

theorem findMoves_mines:
  assumes "rectangular board"
  shows "\<exists>res. findMoves board = Inr res \<and> set (mineCells res) = outCell ` spec_mines board"
proof -
  from pass1_total [OF assms] obtain m where m: "pass1 board = Inr m" ..
  from pass2_total [OF assms] obtain s where s: "pass2 board m = Inr s" ..
  have "set m = keyOf ` spec_mines board"
    using pass1_set [OF m] by (simp add: minePositions_eq)
  then have "set (map keyToCell m) = outCell ` spec_mines board" by (rule keys_decode)
  with m s show ?thesis by (simp add: findMoves_def)
qed

theorem findMoves_mines_witness:
  "rectangular scenarioD \<and> findMoves scenarioD = Inr scenarioD_moves \<and>
   outCell ` spec_mines scenarioD = {\<lparr>row = Num 0, col = Num 1\<rparr>}"
  using findMoves_mines [OF rectangular_scenarioD]
  by (simp add: rectangular_scenarioD findMoves_scenarioD scenarioD_moves_def)

text \<open>
  Claim C2 (second pass, safe deduction). On every rectangular board both passes return;
  the second pass runs on the finished key set \<open>m\<close> of the first and returns safe keys
  only, so the mine array of the result is the decoded \<open>m\<close> as the first pass left it.
  The cells of the safe array are exactly the positions \<open>p\<close> that are hidden, are not
  among the mines of the first pass, and are a neighbour of some revealed tile whose value
  equals the number of its neighbours among those mines.
\<close>

theorem findMoves_safe:
  assumes "rectangular board"
  shows "\<exists>m s. pass1 board = Inr m \<and> pass2 board m = Inr s \<and>
           findMoves board = Inr \<lparr>safeCells = map keyToCell s, mineCells = map keyToCell m\<rparr> \<and>
           set (map keyToCell m) = outCell ` spec_mines board \<and>
           set (map keyToCell s) = outCell ` spec_safe board"
proof -
  from pass1_total [OF assms] obtain m where m: "pass1 board = Inr m" ..
  from pass2_total [OF assms] obtain s where s: "pass2 board m = Inr s" ..
  have km: "set m = keyOf ` spec_mines board"
    using pass1_set [OF m] by (simp add: minePositions_eq)
  have ks: "set s = keyOf ` spec_safe board"
    using pass2_set [OF s] by (simp add: safePositions_eq [OF km])
  from m s keys_decode [OF km] keys_decode [OF ks] show ?thesis
    by (simp add: findMoves_def)
qed

theorem findMoves_safe_witness:
  "rectangular scenarioD \<and> pass1 scenarioD = Inr [''0_1''] \<and> pass2 scenarioD [''0_1''] = Inr [''0_3''] \<and>
   outCell ` spec_mines scenarioD = {\<lparr>row = Num 0, col = Num 1\<rparr>} \<and>
   outCell ` spec_safe scenarioD = {\<lparr>row = Num 0, col = Num 3\<rparr>}"
proof -
  have p1: "pass1 scenarioD = Inr [''0_1'']" by code_simp
  have p2: "pass2 scenarioD [''0_1''] = Inr [''0_3'']" by code_simp
  have k1: "keyToCell ''0_1'' = \<lparr>row = Num 0, col = Num 1\<rparr>" by code_simp
  have k2: "keyToCell ''0_3'' = \<lparr>row = Num 0, col = Num 3\<rparr>" by code_simp
  show ?thesis
    using findMoves_safe [OF rectangular_scenarioD]
    by (simp add: rectangular_scenarioD p1 p2 k1 k2)
qed

text \<open>
  Claim C3 (disjointness). Whenever \<open>findMoves\<close> returns, on any board, no cell occurs in
  both the safe array and the mine array.
\<close>

theorem findMoves_disjoint:
  assumes "findMoves board = Inr res"
  shows "set (safeCells res) \<inter> set (mineCells res) = {}"
proof -
  from assms obtain m s where m: "pass1 board = Inr m" and s: "pass2 board m = Inr s"
    and res: "res = \<lparr>safeCells = map keyToCell s, mineCells = map keyToCell m\<rparr>"
    by (rule findMoves_Inr)
  have sm: "set (mineCells res) = outCell ` minePositions board"
    using keys_decode [OF pass1_set [OF m]] by (simp add: res)
  have ss: "set (safeCells res) = outCell ` safePositions board m"
    using keys_decode [OF pass2_set [OF s]] by (simp add: res)
  have "p \<notin> minePositions board" if "p \<in> safePositions board m" for p
    using safePositions_not_mine [OF that] pass1_set [OF m] by auto
  then show ?thesis unfolding sm ss by (auto dest: outCell_inj)
qed

theorem findMoves_disjoint_witness:
  "findMoves scenarioD = Inr scenarioD_moves \<and>
   set (safeCells scenarioD_moves) \<inter> set (mineCells scenarioD_moves) = {}"
  using findMoves_disjoint [OF findMoves_scenarioD] findMoves_scenarioD by simp

text \<open>
  Claim C4 (neighbours are clipped to the board). For every board and all integers
  \<open>r\<close> and \<open>c\<close>, in range or not, \<open>getNeighbors\<close> returns without an error the eight
  candidates in the order of the offsets \<open>(-1,-1), (-1,0), (-1,1), (0,-1), (0,1), (1,-1),
  (1,0), (1,1)\<close>, less those outside the board. Every position returned has
  \<open>0 \<le> row < length board\<close> and \<open>0 \<le> col <\<close> the width of row 0, none is \<open>(r, c)\<close> itself,
  and there are at most eight.
\<close>

theorem getNeighbors_clipped:
  "\<exists>ns. getNeighbors board r c = Inr ns \<and>
     ns = filter (\<lambda>p. 0 \<le> row p \<and> row p < int (length board) \<and>
                       0 \<le> col p \<and> board \<noteq> [] \<and> col p < int (length (hd board)))
            [\<lparr>row = r - 1, col = c - 1\<rparr>, \<lparr>row = r - 1, col = c\<rparr>, \<lparr>row = r - 1, col = c + 1\<rparr>,
             \<lparr>row = r, col = c - 1\<rparr>, \<lparr>row = r, col = c + 1\<rparr>,
             \<lparr>row = r + 1, col = c - 1\<rparr>, \<lparr>row = r + 1, col = c\<rparr>, \<lparr>row = r + 1, col = c + 1\<rparr>] \<and>
     (\<forall>p \<in> set ns. 0 \<le> row p \<and> row p < int (length board) \<and>
                    0 \<le> col p \<and> col p < int (length (hd board)) \<and>
                    p \<noteq> \<lparr>row = r, col = c\<rparr>) \<and>
     length ns \<le> 8"
proof -
  let ?ns = "filter (withinBoard board) (candidates r c)"
  have 1: "getNeighbors board r c = Inr ?ns" by (rule getNeighbors_eq)
  have 2: "?ns = filter (\<lambda>p. 0 \<le> row p \<and> row p < int (length board) \<and>
                       0 \<le> col p \<and> board \<noteq> [] \<and> col p < int (length (hd board)))
            [\<lparr>row = r - 1, col = c - 1\<rparr>, \<lparr>row = r - 1, col = c\<rparr>, \<lparr>row = r - 1, col = c + 1\<rparr>,
             \<lparr>row = r, col = c - 1\<rparr>, \<lparr>row = r, col = c + 1\<rparr>,
             \<lparr>row = r + 1, col = c - 1\<rparr>, \<lparr>row = r + 1, col = c\<rparr>, \<lparr>row = r + 1, col = c + 1\<rparr>]"
    unfolding candidates_unfold withinBoard_def ..
  have 3: "\<forall>p \<in> set ?ns. 0 \<le> row p \<and> row p < int (length board) \<and>
                    0 \<le> col p \<and> col p < int (length (hd board)) \<and>
                    p \<noteq> \<lparr>row = r, col = c\<rparr>"
    using candidates_not_self by (auto simp: withinBoard_def)
  have "length ?ns \<le> length (candidates r c)" by (rule length_filter_le)
  then have 4: "length ?ns \<le> 8" by (simp add: length_candidates)
  from 1 2 3 4 show ?thesis by blast
qed

theorem getNeighbors_clipped_witness:
  "getNeighbors scenarioC 0 0 = Inr [\<lparr>row = 0, col = 1\<rparr>, \<lparr>row = 1, col = 0\<rparr>, \<lparr>row = 1, col = 1\<rparr>] \<and>
   getNeighbors scenarioC (- 1) 3 = Inr [\<lparr>row = 0, col = 2\<rparr>] \<and>
   getNeighbors scenarioC 7 (- 7) = Inr []"
  using getNeighbors_clipped [of scenarioC 0 0] getNeighbors_clipped [of scenarioC "- 1" 3]
    getNeighbors_clipped [of scenarioC 7 "- 7"]
  by (simp add: scenarioC_def)

text \<open>
  Claim C5 (no error on a well-formed board). Every function of the model is total, so
  \<open>findMoves\<close> always terminates; on a rectangular board the value it terminates with is a
  result and not an error, and on the board with no rows the result has an empty safe
  array and an empty mine array.
\<close>

theorem findMoves_total:
  "(rectangular board \<longrightarrow> (\<exists>res. findMoves board = Inr res)) \<and>
   findMoves [] = Inr \<lparr>safeCells = [], mineCells = []\<rparr>"
proof
  show "rectangular board \<longrightarrow> (\<exists>res. findMoves board = Inr res)"
  proof
    assume r: "rectangular board"
    from pass1_total [OF r] obtain m where m: "pass1 board = Inr m" ..
    from pass2_total [OF r] obtain s where s: "pass2 board m = Inr s" ..
    from m s show "\<exists>res. findMoves board = Inr res" by (simp add: findMoves_def)
  qed
  show "findMoves [] = Inr \<lparr>safeCells = [], mineCells = []\<rparr>"
    by (simp add: findMoves_def pass1_def pass2_def)
qed

theorem findMoves_total_witness:
  "rectangular scenarioD \<and> (\<exists>res. findMoves scenarioD = Inr res)"
  using findMoves_total [of scenarioD] rectangular_scenarioD by simp

text \<open>
  Claim C6 (scenario C). On the 2 by 3 board with rows \<open>[2, hidden, hidden]\<close> and
  \<open>[1, hidden, hidden]\<close>, \<open>findMoves\<close> returns the mines \<open>(0,1)\<close> and \<open>(1,1)\<close> and no safe
  cell. The first pass ends with the keys \<^verbatim>\<open>0_1\<close> and \<^verbatim>\<open>1_1\<close>; the clue 1 at \<open>(1,0)\<close> has the
  neighbours \<open>(0,0), (0,1), (1,1)\<close>, two of which are identified mines, so its value differs
  from the count and the second pass adds nothing at that tile.
\<close>

theorem scenarioC_moves:
  "findMoves scenarioC =
     Inr \<lparr>safeCells = [],
          mineCells = [\<lparr>row = Num 0, col = Num 1\<rparr>, \<lparr>row = Num 1, col = Num 1\<rparr>]\<rparr> \<and>
   pass1 scenarioC = Inr [''0_1'', ''1_1''] \<and>
   getNeighbors scenarioC 1 0 = Inr [\<lparr>row = 0, col = 0\<rparr>, \<lparr>row = 0, col = 1\<rparr>, \<lparr>row = 1, col = 1\<rparr>] \<and>
   identifiedMineCount [''0_1'', ''1_1''] [\<lparr>row = 0, col = 0\<rparr>, \<lparr>row = 0, col = 1\<rparr>, \<lparr>row = 1, col = 1\<rparr>] = 2 \<and>
   value (state (scenarioC ! 1 ! 0)) = Num 1 \<and>
   pass2_tile scenarioC [''0_1'', ''1_1''] 1 0 [] = Inr []"
proof (intro conjI)
  show "findMoves scenarioC =
     Inr \<lparr>safeCells = [],
          mineCells = [\<lparr>row = Num 0, col = Num 1\<rparr>, \<lparr>row = Num 1, col = Num 1\<rparr>]\<rparr>"
    by code_simp
  show "pass1 scenarioC = Inr [''0_1'', ''1_1'']"
    by code_simp
  show "getNeighbors scenarioC 1 0 = Inr [\<lparr>row = 0, col = 0\<rparr>, \<lparr>row = 0, col = 1\<rparr>, \<lparr>row = 1, col = 1\<rparr>]"
    by code_simp
  show "identifiedMineCount [''0_1'', ''1_1''] [\<lparr>row = 0, col = 0\<rparr>, \<lparr>row = 0, col = 1\<rparr>, \<lparr>row = 1, col = 1\<rparr>] = 2"
    by code_simp
  show "value (state (scenarioC ! 1 ! 0)) = Num 1"
    by code_simp
  show "pass2_tile scenarioC [''0_1'', ''1_1''] 1 0 [] = Inr []"
    by code_simp
qed

text \<open>
  Claim C7 (set semantics). Whenever \<open>findMoves\<close> returns, on any board, the safe array has
  no cell twice and the mine array has no cell twice; and for non-negative integers \<open>r\<close>
  and \<open>c\<close>, such as the coordinates that \<open>getNeighbors\<close> returns, splitting the key
  \<open>cellKey r c\<close> at the underscore and reading the two pieces as numbers gives back
  \<open>r\<close> and \<open>c\<close>.
\<close>

theorem findMoves_no_duplicates:
  "(findMoves board = Inr res \<longrightarrow> distinct (safeCells res) \<and> distinct (mineCells res)) \<and>
   (0 \<le> r \<and> 0 \<le> c \<longrightarrow> keyToCell (cellKey r c) = \<lparr>row = Num r, col = Num c\<rparr>)"
proof
  show "findMoves board = Inr res \<longrightarrow> distinct (safeCells res) \<and> distinct (mineCells res)"
  proof
    assume "findMoves board = Inr res"
    then obtain m s where m: "pass1 board = Inr m" and s: "pass2 board m = Inr s"
      and res: "res = \<lparr>safeCells = map keyToCell s, mineCells = map keyToCell m\<rparr>"
      by (rule findMoves_Inr)
    show "distinct (safeCells res) \<and> distinct (mineCells res)"
      using keys_decode_distinct [OF pass1_set [OF m] pass1_distinct [OF m]]
        keys_decode_distinct [OF pass2_set [OF s] pass2_distinct [OF s]]
      by (simp add: res)
  qed
  show "0 \<le> r \<and> 0 \<le> c \<longrightarrow> keyToCell (cellKey r c) = \<lparr>row = Num r, col = Num c\<rparr>"
    by (simp add: keyToCell_cellKey)
qed

theorem findMoves_no_duplicates_witness:
  "findMoves scenarioD = Inr scenarioD_moves \<and>
   distinct (safeCells scenarioD_moves) \<and> distinct (mineCells scenarioD_moves) \<and>
   keyToCell (cellKey 3 12) = \<lparr>row = Num 3, col = Num 12\<rparr>"
  using findMoves_no_duplicates [of scenarioD scenarioD_moves 3 12] findMoves_scenarioD by simp

text \<open>
  Claim C8 (determinism). \<open>findMoves\<close> creates its two sets afresh at each call and reads
  nothing but its argument, which is why it is a function of the board here. The theorem
  says what it reads of the board: two boards whose tiles have the same states, position
  by position, get the same result, whatever the \<^verbatim>\<open>row\<close> and \<^verbatim>\<open>col\<close> fields of the tiles
  hold. Two calls on identical boards are the special case.
\<close>

theorem findMoves_deterministic:
  assumes "tileStates b1 = tileStates b2"
  shows "findMoves b1 = findMoves b2"
  by (simp add: findMoves_def same_states_pass1 [OF assms] same_states_pass2 [OF assms]
      cong: sum.case_cong)

theorem findMoves_deterministic_witness:
  "tileStates scenarioD = tileStates scenarioD_relabelled \<and>
   scenarioD \<noteq> scenarioD_relabelled \<and>
   findMoves scenarioD_relabelled = Inr scenarioD_moves"
proof -
  have eq: "tileStates scenarioD = tileStates scenarioD_relabelled"
    by (simp add: tileStates_def scenarioD_def scenarioD_relabelled_def numberTile_def hiddenTile_def)
  have ne: "scenarioD \<noteq> scenarioD_relabelled"
    by (simp add: scenarioD_def scenarioD_relabelled_def numberTile_def hiddenTile_def)
  from findMoves_deterministic [OF eq] findMoves_scenarioD eq ne show ?thesis by simp
qed

text \<open>
  Claim C9 (only hidden tiles within the board are concluded). Whenever \<open>findMoves\<close>
  returns, on any board, every cell of the safe array and of the mine array has integer
  coordinates \<open>r\<close> and \<open>c\<close> with \<open>r\<close> below the number of rows and \<open>c\<close> below the width of
  row \<open>r\<close> and of row 0, and the tile there is hidden; in particular it is not a number
  tile.
\<close>

theorem findMoves_hidden_in_bounds:
  assumes "findMoves board = Inr res" and "x \<in> set (safeCells res) \<union> set (mineCells res)"
  shows "\<exists>r c. x = \<lparr>row = Num (int r), col = Num (int c)\<rparr> \<and> r < length board \<and>
           c < length (board ! r) \<and> c < length (hd board) \<and>
           kind (state (board ! r ! c)) = ''hidden'' \<and>
           kind (state (board ! r ! c)) \<noteq> ''number''"
proof -
  from assms(1) obtain m s where m: "pass1 board = Inr m" and s: "pass2 board m = Inr s"
    and res: "res = \<lparr>safeCells = map keyToCell s, mineCells = map keyToCell m\<rparr>"
    by (rule findMoves_Inr)
  have sm: "set (mineCells res) = outCell ` minePositions board"
    using keys_decode [OF pass1_set [OF m]] by (simp add: res)
  have ss: "set (safeCells res) = outCell ` safePositions board m"
    using keys_decode [OF pass2_set [OF s]] by (simp add: res)
  from assms(2) obtain p where x: "x = outCell p" and h: "hiddenAt board p"
    and w: "withinBoard board p"
    unfolding sm ss
    using minePositions_hidden safePositions_hidden minePositions_within safePositions_within
    by blast
  from hiddenAt_outCell [OF h w] show ?thesis by (auto simp: x)
qed

theorem findMoves_hidden_in_bounds_witness:
  "findMoves scenarioD = Inr scenarioD_moves \<and>
   \<lparr>row = Num 0, col = Num 3\<rparr> \<in> set (safeCells scenarioD_moves) \<union> set (mineCells scenarioD_moves) \<and>
   (\<exists>r c. \<lparr>row = Num 0, col = Num 3\<rparr> = \<lparr>row = Num (int r), col = Num (int c)\<rparr> \<and>
      r < length scenarioD \<and> c < length (scenarioD ! r) \<and> c < length (hd scenarioD) \<and>
      kind (state (scenarioD ! r ! c)) = ''hidden'' \<and>
      kind (state (scenarioD ! r ! c)) \<noteq> ''number'')"
proof -
  have mem: "\<lparr>row = Num 0, col = Num 3\<rparr> \<in> set (safeCells scenarioD_moves) \<union> set (mineCells scenarioD_moves)"
    by (simp add: scenarioD_moves_def)
  from findMoves_hidden_in_bounds [OF findMoves_scenarioD mem] findMoves_scenarioD mem
  show ?thesis by blast
qed

text \<open>
  Claim C10 (a board with no rows). On the empty board the bounds check is false for every
  candidate without reaching the read of row 0, which would throw; so \<open>getNeighbors\<close>
  returns the empty array for every \<open>r\<close> and \<open>c\<close>.
\<close>

theorem getNeighbors_no_rows:
  "getNeighbors [] r c = Inr [] \<and> inBounds [] a b = Inr False \<and> row0_length [] = Inl TypeError"
  by (simp add: getNeighbors_def getNeighbors_loop_no_rows inBounds_no_rows row0_length_def)

end
